theory Spec2Isabelle
  imports
    Complex_Main
    "HOL-Library.Char_ord"
    "HOL-Library.List_Lexorder"
    "HOL-Library.Multiset"
    "HOL-Library.Product_Lexorder"
begin

section \<open>Documents and Python dictionaries\<close>

text \<open>
  Categories and media records are Python dictionaries. A dictionary is an association list
  in insertion order; a number is an integer (only the order of numbers is used, so the
  floats of the store are not modelled further).
\<close>

datatype val = Num int | Str string | Arr "val list" | Doc "(string \<times> val) list"

type_synonym document = "(string \<times> val) list"

datatype error =
    KeyError string
  | TypeError
  | CategoryNotFound val
  | StoreUnavailable

text \<open>\<^verbatim>\<open>d[k]\<close>: raises \<^verbatim>\<open>KeyError\<close> when the key is absent.\<close>

definition getitem :: "document \<Rightarrow> string \<Rightarrow> error + val" where
  "getitem d k = (case map_of d k of None \<Rightarrow> Inl (KeyError k) | Some v \<Rightarrow> Inr v)"

text \<open>\<^verbatim>\<open>d[k] = v\<close>: an existing key keeps its place, a new key goes last.\<close>

fun setitem :: "document \<Rightarrow> string \<Rightarrow> val \<Rightarrow> document" where
  "setitem [] k v = [(k, v)]"
| "setitem ((k', v') # d) k v =
     (if k' = k then (k, v) # d else (k', v') # setitem d k v)"

section \<open>The document store\<close>

text \<open>
  \<^verbatim>\<open>mongo\<close> is the object \<^verbatim>\<open>main.py\<close> builds from the class \<^verbatim>\<open>MongoDB\<close>, which is not
  among the sources. \<^verbatim>\<open>home\<close> reads two attributes of it: \<^verbatim>\<open>categories\<close>, the list of
  category dictionaries, and \<^verbatim>\<open>metadata\<close>, which maps a category id to its collection.
  \<open>available\<close> says whether the store can be reached and \<open>calls\<close> counts the
  \<^verbatim>\<open>aggregate\<close> commands the store client has been asked to run.
\<close>

record mongo =
  categories :: "document list"
  metadata :: "(val \<times> document list) list"
  available :: bool
  calls :: nat

datatype direction = Ascending | Descending

datatype stage =
    Sort string direction
  | Limit nat
  | Project "(string \<times> nat) list"

text \<open>A dotted field path, split at the dots.\<close>

fun split_path :: "string \<Rightarrow> string list" where
  "split_path [] = [[]]"
| "split_path (c # cs) =
     (if c = CHR ''.'' then [] # split_path cs
      else (case split_path cs of [] \<Rightarrow> [[c]] | p # ps \<Rightarrow> (c # p) # ps))"

text \<open>
  Modelled from the spec: the values a ranking field denotes in a document. The store's
  \<^verbatim>\<open>aggregate\<close> is not among the sources; the spec (4.1) has it rank a category's
  records by a field that is top-level for movies and nested for series (the time of the
  latest episode). A path descends through sub-documents and through the elements of
  arrays; an array that the path ends on contributes its elements.
\<close>

fun field_values :: "string list \<Rightarrow> val \<Rightarrow> val list" where
  "field_values [] (Arr vs) = vs"
| "field_values [] v = [v]"
| "field_values (f # fs) (Doc d) =
     (case map_of d f of None \<Rightarrow> [] | Some v \<Rightarrow> field_values fs v)"
| "field_values (f # fs) (Arr vs) = concat (map (field_values (f # fs)) vs)"
| "field_values (f # fs) v = []"

text \<open>
  Modelled from the spec: the store's order of values. An absent field comes lowest, then
  numbers by value, then strings in lexicographic order, then sub-documents, then arrays.
\<close>

type_synonym rank = "nat \<times> int \<times> string"

fun rank_of :: "val \<Rightarrow> rank" where
  "rank_of (Num n) = (1, n, [])"
| "rank_of (Str s) = (2, 0, s)"
| "rank_of (Doc d) = (3, 0, [])"
| "rank_of (Arr vs) = (4, 0, [])"

definition absent :: rank where
  "absent = (0, 0, [])"

text \<open>
  Modelled from the spec: the key a document is ranked by. A descending sort ranks a
  document by the greatest of the values of the field (for a series, its latest episode),
  an ascending sort by the least.
\<close>

fun sort_rank :: "direction \<Rightarrow> string \<Rightarrow> document \<Rightarrow> rank" where
  "sort_rank Descending f d =
     (case map rank_of (field_values (split_path f) (Doc d)) of
        [] \<Rightarrow> absent | r # rs \<Rightarrow> fold max rs r)"
| "sort_rank Ascending f d =
     (case map rank_of (field_values (split_path f) (Doc d)) of
        [] \<Rightarrow> absent | r # rs \<Rightarrow> fold min rs r)"

text \<open>\<^verbatim>\<open>$project\<close> with a field mapped to 0: the field is left out of the result.\<close>

definition project :: "(string \<times> nat) list \<Rightarrow> document \<Rightarrow> document" where
  "project spec d = filter (\<lambda>kv. map_of spec (fst kv) \<noteq> Some 0) d"

text \<open>
  Modelled from the spec: one stage of an aggregation pipeline. Records of equal rank stay
  in the store's natural order (spec 4.2), which is the order of the collection.
\<close>

fun run_stage :: "stage \<Rightarrow> document list \<Rightarrow> document list" where
  "run_stage (Sort f Descending) ds = rev (sort_key (sort_rank Descending f) (rev ds))"
| "run_stage (Sort f Ascending) ds = sort_key (sort_rank Ascending f) ds"
| "run_stage (Limit n) ds = take n ds"
| "run_stage (Project spec) ds = map (project spec) ds"

text \<open>
  Modelled from the spec: \<^verbatim>\<open>category_col.aggregate(pipeline)\<close>, the stages run in order on
  the collection. The spec (4.1, 6) gives the store two errors: it cannot be reached, or
  the collection does not exist.
\<close>

definition aggregate :: "mongo \<Rightarrow> val \<Rightarrow> stage list \<Rightarrow> error + document list" where
  "aggregate m category_col stages =
     (if \<not> available m then Inl StoreUnavailable
      else case map_of (metadata m) category_col of
             None \<Rightarrow> Inl (CategoryNotFound category_col)
           | Some col \<Rightarrow> Inr (fold run_stage stages col))"

section \<open>The route \<^verbatim>\<open>home\<close>\<close>

definition data_cap_limit :: nat where
  "data_cap_limit = 15"

definition unwanted_keys :: "(string \<times> nat) list" where
  "unwanted_keys =
     [(''_id'', 0), (''cast'', 0), (''seasons'', 0), (''file_name'', 0), (''subtitles'', 0),
      (''external_ids'', 0), (''collection'', 0), (''homepage'', 0),
      (''last_episode_to_air'', 0), (''next_episode_to_air'', 0)]"

text \<open>
  The pipeline \<^verbatim>\<open>home\<close> writes out four times, with the sort field as the only difference:
  \<^verbatim>\<open>[{'$sort': {f: -1}}, {'$limit': data_cap_limit}, {'$project': unwanted_keys}]\<close>.
\<close>

definition pipeline :: "string \<Rightarrow> stage list" where
  "pipeline f = [Sort f Descending, Limit data_cap_limit, Project unwanted_keys]"

text \<open>The key function \<^verbatim>\<open>lambda k: k[f]\<close>, applied to every element from the left.\<close>

fun keys_of :: "string \<Rightarrow> document list \<Rightarrow> error + val list" where
  "keys_of f [] = Inr []"
| "keys_of f (d # ds) =
     (case getitem d f of
        Inl e \<Rightarrow> Inl e
      | Inr v \<Rightarrow> (case keys_of f ds of Inl e \<Rightarrow> Inl e | Inr vs \<Rightarrow> Inr (v # vs)))"

fun is_Num :: "val \<Rightarrow> bool" where
  "is_Num (Num n) = True"
| "is_Num v = False"

fun is_Str :: "val \<Rightarrow> bool" where
  "is_Str (Str s) = True"
| "is_Str v = False"

definition num_key :: "string \<Rightarrow> document \<Rightarrow> int" where
  "num_key f d = (case map_of d f of Some (Num n) \<Rightarrow> n | _ \<Rightarrow> 0)"

definition str_key :: "string \<Rightarrow> document \<Rightarrow> string" where
  "str_key f d = (case map_of d f of Some (Str s) \<Rightarrow> s | _ \<Rightarrow> [])"

text \<open>
  \<^verbatim>\<open>sorted(xs, key=lambda k: k[f], reverse=True)\<close>. The keys are computed first, so a
  record without the field raises \<^verbatim>\<open>KeyError\<close>. The sort is stable, and with
  \<^verbatim>\<open>reverse=True\<close> equal elements keep their order. Numbers compare with numbers and
  strings with strings; two keys of any other kinds raise \<^verbatim>\<open>TypeError\<close> when compared,
  and a list of fewer than two elements compares nothing. (Two lists can compare in Python,
  depending on their elements; keys that are lists are outside what the ranking fields
  hold, and are rendered as \<^verbatim>\<open>TypeError\<close>.)
\<close>

definition sorted_reverse :: "string \<Rightarrow> document list \<Rightarrow> error + document list" where
  "sorted_reverse f xs =
     (case keys_of f xs of
        Inl e \<Rightarrow> Inl e
      | Inr vs \<Rightarrow>
          if length xs \<le> 1 then Inr xs
          else if list_all is_Num vs then Inr (rev (sort_key (num_key f) (rev xs)))
          else if list_all is_Str vs then Inr (rev (sort_key (str_key f) (rev xs)))
          else Inl TypeError)"

text \<open>
  The local lists of \<^verbatim>\<open>home\<close>. The dictionary \<^verbatim>\<open>data\<close> of the response holds the same
  eight lists under the same names without the suffix \<^verbatim>\<open>_data\<close>.
\<close>

record lists =
  categories_data :: "document list"
  carousel_data :: "document list"
  most_popular_movies_data :: "document list"
  most_popular_series_data :: "document list"
  top_rated_series_data :: "document list"
  top_rated_movies_data :: "document list"
  newly_added_movies_data :: "document list"
  newly_added_episodes_data :: "document list"

definition empty_lists :: lists where
  "empty_lists =
     \<lparr>categories_data = [], carousel_data = [], most_popular_movies_data = [],
      most_popular_series_data = [], top_rated_series_data = [], top_rated_movies_data = [],
      newly_added_movies_data = [], newly_added_episodes_data = []\<rparr>"

text \<open>
  The body of \<^verbatim>\<open>for category in mongo.categories\<close>. It returns the number of
  \<^verbatim>\<open>aggregate\<close> calls it made, the category dictionary as the body left it (the body
  assigns \<^verbatim>\<open>category["metadata"]\<close>), and the lists, or the exception that ended it.
  \<^verbatim>\<open>mongo.metadata[category["id"]]\<close> is a handle: the store is asked nothing until
  \<^verbatim>\<open>aggregate\<close>.
\<close>

definition body :: "mongo \<Rightarrow> document \<Rightarrow> lists \<Rightarrow> nat \<times> document \<times> (error + lists)" where
  "body m category l =
     (case getitem category ''id'' of
        Inl e \<Rightarrow> (0, category, Inl e)
      | Inr category_col \<Rightarrow>
     (case aggregate m category_col (pipeline ''popularity'') of
        Inl e \<Rightarrow> (1, category, Inl e)
      | Inr sorted_popularity_data \<Rightarrow>
     let category' = setitem category ''metadata'' (Arr (map Doc sorted_popularity_data));
         l1 = l\<lparr>categories_data := categories_data l @ [category'],
                carousel_data := carousel_data l @ take 3 sorted_popularity_data\<rparr>
     in
     (case aggregate m category_col (pipeline ''rating'') of
        Inl e \<Rightarrow> (2, category', Inl e)
      | Inr sorted_top_rated_data \<Rightarrow>
     (case getitem category' ''type'' of
        Inl e \<Rightarrow> (2, category', Inl e)
      | Inr ty \<Rightarrow>
     if ty = Str ''movies'' then
       (case aggregate m category_col (pipeline ''modified_time'') of
          Inl e \<Rightarrow> (3, category', Inl e)
        | Inr sorted_newly_added_data \<Rightarrow>
            (3, category', Inr (l1
              \<lparr>most_popular_movies_data := most_popular_movies_data l1 @ sorted_popularity_data,
               top_rated_movies_data := top_rated_movies_data l1 @ sorted_top_rated_data,
               newly_added_movies_data := newly_added_movies_data l1 @ sorted_newly_added_data\<rparr>)))
     else
       (case aggregate m category_col (pipeline ''seasons.episodes.modified_time'') of
          Inl e \<Rightarrow> (3, category', Inl e)
        | Inr sorted_newly_added_data \<Rightarrow>
            (3, category', Inr (l1
              \<lparr>most_popular_series_data := most_popular_series_data l1 @ sorted_popularity_data,
               top_rated_series_data := top_rated_series_data l1 @ sorted_top_rated_data,
               newly_added_episodes_data :=
                 newly_added_episodes_data l1 @ sorted_newly_added_data\<rparr>)))))))"

text \<open>
  The loop over \<^verbatim>\<open>mongo.categories\<close>: the calls made, the categories as the loop left
  them (those after an exception untouched), and the lists or the exception.
\<close>

fun for_category :: "mongo \<Rightarrow> document list \<Rightarrow> lists \<Rightarrow> nat \<times> document list \<times> (error + lists)" where
  "for_category m [] l = (0, [], Inr l)"
| "for_category m (category # rest) l =
     (case body m category l of
        (n, category', Inl e) \<Rightarrow> (n, category' # rest, Inl e)
      | (n, category', Inr l') \<Rightarrow>
          (case for_category m rest l' of
             (n', rest', r) \<Rightarrow> (n + n', category' # rest', r)))"

text \<open>The six \<^verbatim>\<open>sorted\<close> calls after the loop, in the order of the source.\<close>

definition sort_lists :: "lists \<Rightarrow> error + lists" where
  "sort_lists l =
     (case sorted_reverse ''popularity'' (carousel_data l) of Inl e \<Rightarrow> Inl e | Inr carousel \<Rightarrow>
     (case sorted_reverse ''popularity'' (most_popular_movies_data l) of Inl e \<Rightarrow> Inl e | Inr pm \<Rightarrow>
     (case sorted_reverse ''popularity'' (most_popular_series_data l) of Inl e \<Rightarrow> Inl e | Inr ps \<Rightarrow>
     (case sorted_reverse ''rating'' (top_rated_movies_data l) of Inl e \<Rightarrow> Inl e | Inr rm \<Rightarrow>
     (case sorted_reverse ''rating'' (top_rated_series_data l) of Inl e \<Rightarrow> Inl e | Inr rs \<Rightarrow>
     (case sorted_reverse ''modified_time'' (newly_added_movies_data l) of Inl e \<Rightarrow> Inl e | Inr nm \<Rightarrow>
        Inr (l\<lparr>carousel_data := carousel, most_popular_movies_data := pm,
               most_popular_series_data := ps, top_rated_movies_data := rm,
               top_rated_series_data := rs, newly_added_movies_data := nm\<rparr>)))))))"

record response =
  ok :: bool
  message :: string
  data :: lists
  time_taken :: real

text \<open>
  \<^verbatim>\<open>home()\<close>. The two readings of \<^verbatim>\<open>time.perf_counter()\<close> are arguments. The result is
  the store object after the call (its category dictionaries are the ones the loop assigned
  to, its call count has grown) and the returned dictionary, or the exception that left
  \<^verbatim>\<open>home\<close>: the function has no handler. The branch \<^verbatim>\<open>if True\<close> is the only one that
  runs; \<^verbatim>\<open>random.seed\<close> and the logger do not reach the result.
\<close>

definition home :: "real \<Rightarrow> real \<Rightarrow> mongo \<Rightarrow> mongo \<times> (error + response)" where
  "home start end m =
     (case for_category m (categories m) empty_lists of
        (n, categories', r) \<Rightarrow>
          (m\<lparr>categories := categories', calls := calls m + n\<rparr>,
           case r of
             Inl e \<Rightarrow> Inl e
           | Inr l \<Rightarrow>
               (case sort_lists l of
                  Inl e \<Rightarrow> Inl e
                | Inr l' \<Rightarrow>
                    Inr \<lparr>ok = True, message = ''success'', data = l',
                         time_taken = end - start\<rparr>)))"

section \<open>Notions used to state the properties\<close>

text \<open>
  The query the loop sends for a category and a ranking field: the collection handle is
  \<^verbatim>\<open>mongo.metadata[category["id"]]\<close>, the pipeline the one of \<open>pipeline\<close>.
\<close>

definition query :: "mongo \<Rightarrow> string \<Rightarrow> document \<Rightarrow> error + document list" where
  "query m f category =
     (case getitem category ''id'' of
        Inl e \<Rightarrow> Inl e
      | Inr category_col \<Rightarrow> aggregate m category_col (pipeline f))"

text \<open>The slice a query returns (empty when the query raises).\<close>

definition slice :: "mongo \<Rightarrow> string \<Rightarrow> document \<Rightarrow> document list" where
  "slice m f category = (case query m f category of Inl e \<Rightarrow> [] | Inr ds \<Rightarrow> ds)"

text \<open>The test \<^verbatim>\<open>category["type"] == "movies"\<close>.\<close>

definition is_movies :: "document \<Rightarrow> bool" where
  "is_movies category = (getitem category ''type'' = Inr (Str ''movies''))"

text \<open>The category dictionary after \<^verbatim>\<open>category["metadata"] = sorted_popularity_data\<close>.\<close>

definition attach :: "mongo \<Rightarrow> document \<Rightarrow> document" where
  "attach m category =
     setitem category ''metadata'' (Arr (map Doc (slice m ''popularity'' category)))"

text \<open>The lists after one pass of the loop body that raised nothing.\<close>

definition step :: "mongo \<Rightarrow> lists \<Rightarrow> document \<Rightarrow> lists" where
  "step m l category =
     (if is_movies category then
        l\<lparr>categories_data := categories_data l @ [attach m category],
          carousel_data := carousel_data l @ take 3 (slice m ''popularity'' category),
          most_popular_movies_data :=
            most_popular_movies_data l @ slice m ''popularity'' category,
          top_rated_movies_data := top_rated_movies_data l @ slice m ''rating'' category,
          newly_added_movies_data :=
            newly_added_movies_data l @ slice m ''modified_time'' category\<rparr>
      else
        l\<lparr>categories_data := categories_data l @ [attach m category],
          carousel_data := carousel_data l @ take 3 (slice m ''popularity'' category),
          most_popular_series_data :=
            most_popular_series_data l @ slice m ''popularity'' category,
          top_rated_series_data := top_rated_series_data l @ slice m ''rating'' category,
          newly_added_episodes_data :=
            newly_added_episodes_data l
              @ slice m ''seasons.episodes.modified_time'' category\<rparr>)"

text \<open>
  Python's order on the keys of two records, read from the second to the first: the key of
  \<open>b\<close> is not greater than the key of \<open>a\<close>.
\<close>

definition key_ge :: "string \<Rightarrow> document \<Rightarrow> document \<Rightarrow> bool" where
  "key_ge f a b =
     (case (map_of a f, map_of b f) of
        (Some (Num x), Some (Num y)) \<Rightarrow> y \<le> x
      | (Some (Str x), Some (Str y)) \<Rightarrow> y \<le> x
      | _ \<Rightarrow> False)"

text \<open>The store's order on two records for a descending sort by a field.\<close>

definition rank_ge :: "string \<Rightarrow> document \<Rightarrow> document \<Rightarrow> bool" where
  "rank_ge f a b = (sort_rank Descending f b \<le> sort_rank Descending f a)"

text \<open>A record that holds none of the excluded fields.\<close>

definition clean :: "document \<Rightarrow> bool" where
  "clean d = list_all (\<lambda>k. map_of d k = None) (map fst unwanted_keys)"

text \<open>A record whose field \<open>f\<close> holds a number.\<close>

definition has_number :: "string \<Rightarrow> document \<Rightarrow> bool" where
  "has_number f d = (case map_of d f of Some (Num n) \<Rightarrow> True | _ \<Rightarrow> False)"

text \<open>
  A store that can be reached, in which every category has an id with a collection and a
  type, and every record a numeric popularity and rating, and, in a category of movies, a
  numeric modified time.
\<close>

definition ranked_by_numbers :: "mongo \<Rightarrow> bool" where
  "ranked_by_numbers m =
     (available m \<and>
      list_all
        (\<lambda>category.
           case getitem category ''id'' of
             Inl e \<Rightarrow> False
           | Inr cid \<Rightarrow>
               (case map_of (metadata m) cid of
                  None \<Rightarrow> False
                | Some col \<Rightarrow>
                    (case getitem category ''type'' of
                       Inl e \<Rightarrow> False
                     | Inr ty \<Rightarrow>
                         list_all
                           (\<lambda>d. has_number ''popularity'' d \<and> has_number ''rating'' d \<and>
                                (ty = Str ''movies'' \<longrightarrow> has_number ''modified_time'' d))
                           col)))
        (categories m))"

text \<open>The two kinds of category of the data model.\<close>

definition movies_or_series :: "document \<Rightarrow> bool" where
  "movies_or_series category =
     (getitem category ''type'' = Inr (Str ''movies'') \<or>
      getitem category ''type'' = Inr (Str ''series''))"

section \<open>The application around the route\<close>






section \<open>Example stores\<close>

definition film :: "int \<Rightarrow> int \<Rightarrow> int \<Rightarrow> document" where
  "film p r t =
     [(''_id'', Num p), (''title'', Str ''film''), (''popularity'', Num p), (''rating'', Num r),
      (''modified_time'', Num t)]"

text \<open>A series with one season of two episodes, the later one modified at \<open>t\<close>.\<close>

definition series :: "int \<Rightarrow> int \<Rightarrow> int \<Rightarrow> document" where
  "series p r t =
     [(''_id'', Num p), (''title'', Str ''series''), (''popularity'', Num p),
      (''rating'', Num r), (''modified_time'', Num t),
      (''seasons'', Arr [Doc [(''episodes'',
         Arr [Doc [(''modified_time'', Num (t - 1))], Doc [(''modified_time'', Num t)]])]])]"

text \<open>Two categories with the popularities 10, 9, 8 and 7, 6, 5, stored out of order.\<close>

definition library :: mongo where
  "library =
     \<lparr>categories =
        [[(''id'', Str ''films''), (''type'', Str ''movies'')],
         [(''id'', Str ''shows''), (''type'', Str ''series'')]],
      metadata =
        [(Str ''films'', [film 8 1 3, film 10 2 1, film 9 3 2]),
         (Str ''shows'', [series 5 4 6, series 7 6 4, series 6 5 5])],
      available = True, calls = 0\<rparr>"

text \<open>The same two categories, the series first: the less popular records come first.\<close>

definition shelves :: mongo where
  "shelves =
     library\<lparr>categories :=
               [[(''id'', Str ''shows''), (''type'', Str ''series'')],
                [(''id'', Str ''films''), (''type'', Str ''movies'')]]\<rparr>"

text \<open>One category of seventeen films, the most popular stored last.\<close>

definition archive :: mongo where
  "archive =
     \<lparr>categories = [[(''id'', Str ''films''), (''type'', Str ''movies'')]],
      metadata = [(Str ''films'', map (\<lambda>n. film n 0 0) [1..17])],
      available = True, calls = 0\<rparr>"

text \<open>Two categories of series; the second holds the more recent episode.\<close>

definition two_series :: mongo where
  "two_series =
     \<lparr>categories =
        [[(''id'', Str ''drama''), (''type'', Str ''series'')],
         [(''id'', Str ''comedy''), (''type'', Str ''series'')]],
      metadata = [(Str ''drama'', [series 3 3 1]), (Str ''comedy'', [series 4 4 2])],
      available = True, calls = 0\<rparr>"

text \<open>One category whose type is neither \<^verbatim>\<open>movies\<close> nor \<^verbatim>\<open>series\<close>.\<close>

definition anime_store :: mongo where
  "anime_store =
     \<lparr>categories = [[(''id'', Str ''anime''), (''type'', Str ''anime'')]],
      metadata = [(Str ''anime'', [series 2 1 9, series 1 2 7])],
      available = True, calls = 0\<rparr>"

definition category_types :: "mongo \<Rightarrow> (error + val) list" where
  "category_types m = map (\<lambda>category. getitem category ''type'') (categories m)"


definition no_id :: mongo where
  "no_id = library\<lparr>categories := [[(''type'', Str ''movies'')]]\<rparr>"

definition no_categories :: mongo where
  "no_categories = library\<lparr>categories := []\<rparr>"

section \<open>Dictionaries and the loop\<close>

lemma map_of_setitem: "map_of (setitem d k v) k' = (if k' = k then Some v else map_of d k')"
  by (induction d k v rule: setitem.induct) auto

lemma getitem_setitem_same: "getitem (setitem d k v) k = Inr v"
  by (simp add: getitem_def map_of_setitem)

lemma getitem_setitem_other: "k' \<noteq> k \<Longrightarrow> getitem (setitem d k v) k' = getitem d k'"
  by (simp add: getitem_def map_of_setitem)

lemma setitem_idem: "setitem (setitem d k v) k v = setitem d k v"
  by (induction d k v rule: setitem.induct) auto

lemma aggregate_same_store:
  "metadata m2 = metadata m \<Longrightarrow> available m2 = available m \<Longrightarrow> aggregate m2 c p = aggregate m c p"
  by (simp add: aggregate_def)

lemma body_cases:
  assumes "body m c l = (n, c', Inr l')"
  obtains
    (movies) cid pop rat new where
      "getitem c ''id'' = Inr cid"
      "getitem c ''type'' = Inr (Str ''movies'')"
      "aggregate m cid (pipeline ''popularity'') = Inr pop"
      "aggregate m cid (pipeline ''rating'') = Inr rat"
      "aggregate m cid (pipeline ''modified_time'') = Inr new"
      "n = 3" "c' = setitem c ''metadata'' (Arr (map Doc pop))"
      "l' = l\<lparr>categories_data := categories_data l @ [c'],
               carousel_data := carousel_data l @ take 3 pop,
               most_popular_movies_data := most_popular_movies_data l @ pop,
               top_rated_movies_data := top_rated_movies_data l @ rat,
               newly_added_movies_data := newly_added_movies_data l @ new\<rparr>"
  | (series) cid ty pop rat new where
      "getitem c ''id'' = Inr cid"
      "getitem c ''type'' = Inr ty" "ty \<noteq> Str ''movies''"
      "aggregate m cid (pipeline ''popularity'') = Inr pop"
      "aggregate m cid (pipeline ''rating'') = Inr rat"
      "aggregate m cid (pipeline ''seasons.episodes.modified_time'') = Inr new"
      "n = 3" "c' = setitem c ''metadata'' (Arr (map Doc pop))"
      "l' = l\<lparr>categories_data := categories_data l @ [c'],
               carousel_data := carousel_data l @ take 3 pop,
               most_popular_series_data := most_popular_series_data l @ pop,
               top_rated_series_data := top_rated_series_data l @ rat,
               newly_added_episodes_data := newly_added_episodes_data l @ new\<rparr>"
proof -
  obtain cid where 1: "getitem c ''id'' = Inr cid"
    using assms by (cases "getitem c ''id''") (simp_all add: body_def)
  obtain pop where 2: "aggregate m cid (pipeline ''popularity'') = Inr pop"
    using assms 1 by (cases "aggregate m cid (pipeline ''popularity'')") (simp_all add: body_def)
  obtain rat where 3: "aggregate m cid (pipeline ''rating'') = Inr rat"
    using assms 1 2
    by (cases "aggregate m cid (pipeline ''rating'')") (simp_all add: body_def Let_def)
  have t: "getitem (setitem c ''metadata'' v) ''type'' = getitem c ''type''" for v
    by (rule getitem_setitem_other) simp
  obtain ty where 4: "getitem c ''type'' = Inr ty"
    using assms 1 2 3 by (cases "getitem c ''type''") (simp_all add: body_def Let_def t)
  show thesis
  proof (cases "ty = Str ''movies''")
    case True
    obtain new where 5: "aggregate m cid (pipeline ''modified_time'') = Inr new"
      using assms 1 2 3 4 True
      by (cases "aggregate m cid (pipeline ''modified_time'')") (simp_all add: body_def Let_def t)
    show thesis
      using assms 1 2 3 4 5 True
      by (intro movies[of cid pop rat new]) (auto simp add: body_def Let_def t)
  next
    case False
    obtain new where 5: "aggregate m cid (pipeline ''seasons.episodes.modified_time'') = Inr new"
      using assms 1 2 3 4 False
      by (cases "aggregate m cid (pipeline ''seasons.episodes.modified_time'')")
         (simp_all add: body_def Let_def t)
    show thesis
      using assms 1 2 3 4 5 False
      by (intro series[of cid ty pop rat new]) (auto simp add: body_def Let_def t)
  qed
qed

lemma body_step:
  assumes "body m c l = (n, c', Inr l')"
  shows "n = 3" and "c' = attach m c" and "l' = step m l c"
  using assms
  by (cases rule: body_cases;
      simp add: attach_def step_def slice_def query_def is_movies_def)+

lemma body_queries:
  assumes "body m c l = (n, c', Inr l')"
  shows "query m ''popularity'' c = Inr (slice m ''popularity'' c)"
    and "query m ''rating'' c = Inr (slice m ''rating'' c)"
    and "is_movies c \<Longrightarrow> query m ''modified_time'' c = Inr (slice m ''modified_time'' c)"
    and "\<not> is_movies c \<Longrightarrow> query m ''seasons.episodes.modified_time'' c
           = Inr (slice m ''seasons.episodes.modified_time'' c)"
    and "\<exists>ty. getitem c ''type'' = Inr ty"
  using assms
  by (cases rule: body_cases; simp add: slice_def query_def is_movies_def)+

lemma for_category_ConsE:
  assumes "for_category m (c # cs) l = (n, cs', Inr l')"
  obtains n1 c1 l1 n2 cs2 where
    "body m c l = (n1, c1, Inr l1)" "for_category m cs l1 = (n2, cs2, Inr l')"
    "n = n1 + n2" "cs' = c1 # cs2"
  using assms by (auto split: prod.splits sum.splits)

lemma loop_step:
  "for_category m cs l = (n, cs', Inr l') \<Longrightarrow>
     n = 3 * length cs \<and> cs' = map (attach m) cs \<and> l' = foldl (step m) l cs"
proof (induction cs arbitrary: l n cs')
  case Nil
  then show ?case by simp
next
  case (Cons c cs)
  from Cons.prems obtain n1 c1 l1 n2 cs2 where
    b: "body m c l = (n1, c1, Inr l1)" and r: "for_category m cs l1 = (n2, cs2, Inr l')"
    and e: "n = n1 + n2" "cs' = c1 # cs2"
    by (rule for_category_ConsE)
  from Cons.IH[OF r] body_step[OF b] e show ?case by simp
qed

lemma loop_queries:
  "for_category m cs l = (n, cs', Inr l') \<Longrightarrow> c \<in> set cs \<Longrightarrow>
     query m ''popularity'' c = Inr (slice m ''popularity'' c) \<and>
     query m ''rating'' c = Inr (slice m ''rating'' c) \<and>
     (is_movies c \<longrightarrow> query m ''modified_time'' c = Inr (slice m ''modified_time'' c)) \<and>
     (\<not> is_movies c \<longrightarrow> query m ''seasons.episodes.modified_time'' c
           = Inr (slice m ''seasons.episodes.modified_time'' c)) \<and>
     (\<exists>ty. getitem c ''type'' = Inr ty)"
proof (induction cs arbitrary: l n cs')
  case Nil
  then show ?case by simp
next
  case (Cons a cs)
  from Cons.prems(1) obtain n1 c1 l1 n2 cs2 where
    b: "body m a l = (n1, c1, Inr l1)" and r: "for_category m cs l1 = (n2, cs2, Inr l')"
    by (rule for_category_ConsE)
  show ?case
  proof (cases "c = a")
    case True
    with body_queries[OF b] show ?thesis by blast
  next
    case False
    with Cons.prems(2) have "c \<in> set cs" by simp
    from Cons.IH[OF r this] show ?thesis .
  qed
qed

lemma foldl_step_fields:
  "categories_data (foldl (step m) l cs) = categories_data l @ map (attach m) cs"
  "carousel_data (foldl (step m) l cs)
     = carousel_data l @ concat (map (\<lambda>c. take 3 (slice m ''popularity'' c)) cs)"
  "most_popular_movies_data (foldl (step m) l cs)
     = most_popular_movies_data l @ concat (map (slice m ''popularity'') (filter is_movies cs))"
  "most_popular_series_data (foldl (step m) l cs)
     = most_popular_series_data l
       @ concat (map (slice m ''popularity'') (filter (\<lambda>c. \<not> is_movies c) cs))"
  "top_rated_movies_data (foldl (step m) l cs)
     = top_rated_movies_data l @ concat (map (slice m ''rating'') (filter is_movies cs))"
  "top_rated_series_data (foldl (step m) l cs)
     = top_rated_series_data l
       @ concat (map (slice m ''rating'') (filter (\<lambda>c. \<not> is_movies c) cs))"
  "newly_added_movies_data (foldl (step m) l cs)
     = newly_added_movies_data l
       @ concat (map (slice m ''modified_time'') (filter is_movies cs))"
  "newly_added_episodes_data (foldl (step m) l cs)
     = newly_added_episodes_data l
       @ concat (map (slice m ''seasons.episodes.modified_time'')
                   (filter (\<lambda>c. \<not> is_movies c) cs))"
  by (induction cs arbitrary: l; simp add: step_def)+

section \<open>Sorting and the returned dictionary\<close>

lemma keys_of_length: "keys_of f xs = Inr vs \<Longrightarrow> length vs = length xs"
  by (induction xs arbitrary: vs) (auto split: sum.splits)

lemma keys_of_Num:
  "keys_of f xs = Inr vs \<Longrightarrow> list_all is_Num vs \<Longrightarrow> d \<in> set xs \<Longrightarrow>
     \<exists>n. map_of d f = Some (Num n)"
proof (induction xs arbitrary: vs)
  case Nil
  then show ?case by simp
next
  case (Cons x xs)
  from Cons.prems(1) obtain v vs' where
    g: "getitem x f = Inr v" and k: "keys_of f xs = Inr vs'" and e: "vs = v # vs'"
    by (auto split: sum.splits)
  show ?case
  proof (cases "d = x")
    case True
    from Cons.prems(2) e obtain n where "v = Num n" by (cases v) auto
    with g True show ?thesis by (auto simp: getitem_def split: option.splits)
  next
    case False
    with Cons.prems(3) have "d \<in> set xs" by simp
    moreover from Cons.prems(2) e have "list_all is_Num vs'" by simp
    ultimately show ?thesis using Cons.IH[OF k] by blast
  qed
qed

lemma keys_of_Str:
  "keys_of f xs = Inr vs \<Longrightarrow> list_all is_Str vs \<Longrightarrow> d \<in> set xs \<Longrightarrow>
     \<exists>s. map_of d f = Some (Str s)"
proof (induction xs arbitrary: vs)
  case Nil
  then show ?case by simp
next
  case (Cons x xs)
  from Cons.prems(1) obtain v vs' where
    g: "getitem x f = Inr v" and k: "keys_of f xs = Inr vs'" and e: "vs = v # vs'"
    by (auto split: sum.splits)
  show ?case
  proof (cases "d = x")
    case True
    from Cons.prems(2) e obtain s where "v = Str s" by (cases v) auto
    with g True show ?thesis by (auto simp: getitem_def split: option.splits)
  next
    case False
    with Cons.prems(3) have "d \<in> set xs" by simp
    moreover from Cons.prems(2) e have "list_all is_Str vs'" by simp
    ultimately show ?thesis using Cons.IH[OF k] by blast
  qed
qed

lemma sorted_wrt_rev_sort_key:
  "sorted_wrt (\<lambda>a b. k b \<le> k a) (rev (sort_key k xs))"
proof -
  have "sorted (map k (sort_key k xs))" by simp
  then have "sorted_wrt (\<lambda>a b. k a \<le> k b) (sort_key k xs)"
    by (simp add: sorted_map)
  then show ?thesis by (simp add: sorted_wrt_rev)
qed

lemma sorted_reverse_mset: "sorted_reverse f xs = Inr ys \<Longrightarrow> mset ys = mset xs"
  by (auto simp: sorted_reverse_def split: sum.splits if_splits)

lemma sorted_reverse_set: "sorted_reverse f xs = Inr ys \<Longrightarrow> set ys = set xs"
  by (auto dest: sorted_reverse_mset mset_eq_setD)

lemma sorted_wrt_short: "length xs \<le> 1 \<Longrightarrow> sorted_wrt P xs"
  by (cases xs) auto

lemma sorted_reverse_sorted:
  assumes "sorted_reverse f xs = Inr ys"
  shows "sorted_wrt (key_ge f) ys"
proof -
  from assms obtain vs where k: "keys_of f xs = Inr vs"
    by (auto simp: sorted_reverse_def split: sum.splits)
  show ?thesis
  proof (cases "length xs \<le> 1")
    case True
    with assms k have "ys = xs" by (simp add: sorted_reverse_def)
    with True show ?thesis by (simp add: sorted_wrt_short)
  next
    case long: False
    show ?thesis
    proof (cases "list_all is_Num vs")
      case True
      with assms k long have ys: "ys = rev (sort_key (num_key f) (rev xs))"
        by (simp add: sorted_reverse_def)
      have s: "sorted_wrt (\<lambda>a b. num_key f b \<le> num_key f a) ys"
        unfolding ys by (rule sorted_wrt_rev_sort_key)
      have "key_ge f a b = (num_key f b \<le> num_key f a)" if "a \<in> set ys" "b \<in> set ys" for a b
      proof -
        from that have "a \<in> set xs" "b \<in> set xs" by (simp_all add: ys)
        then obtain x y where "map_of a f = Some (Num x)" "map_of b f = Some (Num y)"
          using keys_of_Num[OF k True] by blast
        then show ?thesis by (simp add: key_ge_def num_key_def)
      qed
      then show ?thesis using s by (auto elim!: sorted_wrt_mono_rel[rotated])
    next
      case notnum: False
      show ?thesis
      proof (cases "list_all is_Str vs")
        case True
        with assms k long notnum have ys: "ys = rev (sort_key (str_key f) (rev xs))"
          by (simp add: sorted_reverse_def)
        have s: "sorted_wrt (\<lambda>a b. str_key f b \<le> str_key f a) ys"
          unfolding ys by (rule sorted_wrt_rev_sort_key)
        have "key_ge f a b = (str_key f b \<le> str_key f a)" if "a \<in> set ys" "b \<in> set ys" for a b
        proof -
          from that have "a \<in> set xs" "b \<in> set xs" by (simp_all add: ys)
          then obtain x y where "map_of a f = Some (Str x)" "map_of b f = Some (Str y)"
            using keys_of_Str[OF k True] by blast
          then show ?thesis by (simp add: key_ge_def str_key_def)
        qed
        then show ?thesis using s by (auto elim!: sorted_wrt_mono_rel[rotated])
      next
        case False
        with assms k long notnum show ?thesis by (simp add: sorted_reverse_def)
      qed
    qed
  qed
qed

lemma sort_lists_cases:
  assumes "sort_lists l = Inr l'"
  shows "sorted_reverse ''popularity'' (carousel_data l) = Inr (carousel_data l')"
    and "sorted_reverse ''popularity'' (most_popular_movies_data l) = Inr (most_popular_movies_data l')"
    and "sorted_reverse ''popularity'' (most_popular_series_data l) = Inr (most_popular_series_data l')"
    and "sorted_reverse ''rating'' (top_rated_movies_data l) = Inr (top_rated_movies_data l')"
    and "sorted_reverse ''rating'' (top_rated_series_data l) = Inr (top_rated_series_data l')"
    and "sorted_reverse ''modified_time'' (newly_added_movies_data l) = Inr (newly_added_movies_data l')"
    and "newly_added_episodes_data l' = newly_added_episodes_data l"
    and "categories_data l' = categories_data l"
proof -
  obtain a where 1: "sorted_reverse ''popularity'' (carousel_data l) = Inr a"
    using assms by (cases "sorted_reverse ''popularity'' (carousel_data l)") (simp_all add: sort_lists_def)
  obtain b where 2: "sorted_reverse ''popularity'' (most_popular_movies_data l) = Inr b"
    using assms 1 by (cases "sorted_reverse ''popularity'' (most_popular_movies_data l)") (simp_all add: sort_lists_def)
  obtain c where 3: "sorted_reverse ''popularity'' (most_popular_series_data l) = Inr c"
    using assms 1 2 by (cases "sorted_reverse ''popularity'' (most_popular_series_data l)") (simp_all add: sort_lists_def)
  obtain d where 4: "sorted_reverse ''rating'' (top_rated_movies_data l) = Inr d"
    using assms 1 2 3 by (cases "sorted_reverse ''rating'' (top_rated_movies_data l)") (simp_all add: sort_lists_def)
  obtain e where 5: "sorted_reverse ''rating'' (top_rated_series_data l) = Inr e"
    using assms 1 2 3 4 by (cases "sorted_reverse ''rating'' (top_rated_series_data l)") (simp_all add: sort_lists_def)
  obtain g where 6: "sorted_reverse ''modified_time'' (newly_added_movies_data l) = Inr g"
    using assms 1 2 3 4 5 by (cases "sorted_reverse ''modified_time'' (newly_added_movies_data l)") (simp_all add: sort_lists_def)
  from assms 1 2 3 4 5 6 have l': "l' = l\<lparr>carousel_data := a, most_popular_movies_data := b,
               most_popular_series_data := c, top_rated_movies_data := d,
               top_rated_series_data := e, newly_added_movies_data := g\<rparr>"
    by (simp add: sort_lists_def)
  show "sorted_reverse ''popularity'' (carousel_data l) = Inr (carousel_data l')"
    and "sorted_reverse ''popularity'' (most_popular_movies_data l) = Inr (most_popular_movies_data l')"
    and "sorted_reverse ''popularity'' (most_popular_series_data l) = Inr (most_popular_series_data l')"
    and "sorted_reverse ''rating'' (top_rated_movies_data l) = Inr (top_rated_movies_data l')"
    and "sorted_reverse ''rating'' (top_rated_series_data l) = Inr (top_rated_series_data l')"
    and "sorted_reverse ''modified_time'' (newly_added_movies_data l) = Inr (newly_added_movies_data l')"
    and "newly_added_episodes_data l' = newly_added_episodes_data l"
    and "categories_data l' = categories_data l"
    using 1 2 3 4 5 6 by (simp_all add: l')
qed

lemma home_success:
  assumes "home start end m = (m', Inr r)"
  obtains l where
    "for_category m (categories m) empty_lists = (3 * length (categories m), map (attach m) (categories m), Inr l)"
    "l = foldl (step m) empty_lists (categories m)"
    "sort_lists l = Inr (data r)"
    "m' = m\<lparr>categories := map (attach m) (categories m), calls := calls m + 3 * length (categories m)\<rparr>"
    "ok r" "message r = ''success''" "time_taken r = end - start"
proof -
  obtain n cs' res where f: "for_category m (categories m) empty_lists = (n, cs', res)"
    by (cases "for_category m (categories m) empty_lists") auto
  from assms f obtain l where res: "res = Inr l"
    by (cases res) (simp_all add: home_def)
  from assms f res obtain l' where s: "sort_lists l = Inr l'"
    by (cases "sort_lists l") (simp_all add: home_def)
  from loop_step[OF f[unfolded res]] have
    e: "n = 3 * length (categories m)" "cs' = map (attach m) (categories m)"
       "l = foldl (step m) empty_lists (categories m)" by simp_all
  from assms f res s have r: "r = \<lparr>ok = True, message = ''success'', data = l', time_taken = end - start\<rparr>"
     and m': "m' = m\<lparr>categories := cs', calls := calls m + n\<rparr>"
    by (simp_all add: home_def)
  show thesis
    using f res s e r m' by (intro that[of l]) simp_all
qed

section \<open>The ranked slices of the store\<close>

lemma aggregate_pipeline:
  assumes "aggregate m cid (pipeline f) = Inr s"
  obtains col where "map_of (metadata m) cid = Some col"
    "s = map (project unwanted_keys)
           (take data_cap_limit (rev (sort_key (sort_rank Descending f) (rev col))))"
  using assms by (auto simp: aggregate_def pipeline_def split: if_splits option.splits)

lemma map_of_project:
  "map_of (project spec d) k = (if map_of spec k = Some 0 then None else map_of d k)"
  by (induction d) (auto simp: project_def)

lemma clean_project: "clean (project unwanted_keys d)"
  by (simp add: clean_def map_of_project unwanted_keys_def)

lemma split_path_not_Nil: "split_path f \<noteq> []"
  by (induction f) (auto split: list.splits)

lemma sort_rank_project:
  assumes "map_of spec (hd (split_path f)) \<noteq> Some 0"
  shows "sort_rank dir f (project spec d) = sort_rank dir f d"
proof -
  obtain p ps where sp: "split_path f = p # ps"
    using split_path_not_Nil[of f] by (cases "split_path f") auto
  with assms have "map_of (project spec d) p = map_of d p"
    by (simp add: map_of_project)
  then have "field_values (split_path f) (Doc (project spec d)) = field_values (split_path f) (Doc d)"
    by (simp add: sp)
  then show ?thesis by (cases dir) simp_all
qed

lemma ranked_slice:
  assumes "aggregate m cid (pipeline f) = Inr s"
  obtains col full where "map_of (metadata m) cid = Some col" "mset full = mset col"
    "sorted_wrt (rank_ge f) full" "s = map (project unwanted_keys) (take data_cap_limit full)"
proof -
  from assms obtain col where c: "map_of (metadata m) cid = Some col"
    and s: "s = map (project unwanted_keys)
           (take data_cap_limit (rev (sort_key (sort_rank Descending f) (rev col))))"
    by (rule aggregate_pipeline)
  let ?full = "rev (sort_key (sort_rank Descending f) (rev col))"
  have "mset ?full = mset col" by simp
  moreover have "sorted_wrt (rank_ge f) ?full"
    using sorted_wrt_rev_sort_key[of "sort_rank Descending f" "rev col"]
    by (simp add: rank_ge_def[abs_def])
  ultimately show thesis using c s by (intro that[of col ?full]) simp_all
qed

lemma query_cases:
  assumes "query m f c = Inr s"
  obtains cid where "getitem c ''id'' = Inr cid" "aggregate m cid (pipeline f) = Inr s"
  using assms by (auto simp: query_def split: sum.splits)

lemma query_clean: "query m f c = Inr s \<Longrightarrow> list_all clean s"
  by (erule query_cases, erule aggregate_pipeline) (simp add: list_all_iff clean_project)

lemma slice_clean: "list_all clean (slice m f c)"
  by (cases "query m f c") (simp_all add: slice_def query_clean)

lemma popularity_kept: "sort_rank dir ''popularity'' (project unwanted_keys d) = sort_rank dir ''popularity'' d"
  by (rule sort_rank_project) (simp add: unwanted_keys_def)

section \<open>The lists of the returned dictionary\<close>

lemma home_lists:
  assumes "home start end m = (m', Inr r)"
  shows "sorted_reverse ''popularity''
           (concat (map (\<lambda>c. take 3 (slice m ''popularity'' c)) (categories m)))
         = Inr (carousel_data (data r))"
    and "sorted_reverse ''popularity''
           (concat (map (slice m ''popularity'') (filter is_movies (categories m))))
         = Inr (most_popular_movies_data (data r))"
    and "sorted_reverse ''popularity''
           (concat (map (slice m ''popularity'') (filter (\<lambda>c. \<not> is_movies c) (categories m))))
         = Inr (most_popular_series_data (data r))"
    and "sorted_reverse ''rating''
           (concat (map (slice m ''rating'') (filter is_movies (categories m))))
         = Inr (top_rated_movies_data (data r))"
    and "sorted_reverse ''rating''
           (concat (map (slice m ''rating'') (filter (\<lambda>c. \<not> is_movies c) (categories m))))
         = Inr (top_rated_series_data (data r))"
    and "sorted_reverse ''modified_time''
           (concat (map (slice m ''modified_time'') (filter is_movies (categories m))))
         = Inr (newly_added_movies_data (data r))"
    and "newly_added_episodes_data (data r)
         = concat (map (slice m ''seasons.episodes.modified_time'')
                     (filter (\<lambda>c. \<not> is_movies c) (categories m)))"
    and "categories_data (data r) = map (attach m) (categories m)"
proof -
  from assms obtain l where l: "l = foldl (step m) empty_lists (categories m)"
    and s: "sort_lists l = Inr (data r)"
    by (rule home_success)
  note f = foldl_step_fields[of m empty_lists "categories m", folded l]
  show "sorted_reverse ''popularity''
           (concat (map (\<lambda>c. take 3 (slice m ''popularity'' c)) (categories m)))
         = Inr (carousel_data (data r))"
    using sort_lists_cases(1)[OF s] f(2) by (simp add: empty_lists_def)
  show "sorted_reverse ''popularity''
           (concat (map (slice m ''popularity'') (filter is_movies (categories m))))
         = Inr (most_popular_movies_data (data r))"
    using sort_lists_cases(2)[OF s] f(3) by (simp add: empty_lists_def)
  show "sorted_reverse ''popularity''
           (concat (map (slice m ''popularity'') (filter (\<lambda>c. \<not> is_movies c) (categories m))))
         = Inr (most_popular_series_data (data r))"
    using sort_lists_cases(3)[OF s] f(4) by (simp add: empty_lists_def)
  show "sorted_reverse ''rating''
           (concat (map (slice m ''rating'') (filter is_movies (categories m))))
         = Inr (top_rated_movies_data (data r))"
    using sort_lists_cases(4)[OF s] f(5) by (simp add: empty_lists_def)
  show "sorted_reverse ''rating''
           (concat (map (slice m ''rating'') (filter (\<lambda>c. \<not> is_movies c) (categories m))))
         = Inr (top_rated_series_data (data r))"
    using sort_lists_cases(5)[OF s] f(6) by (simp add: empty_lists_def)
  show "sorted_reverse ''modified_time''
           (concat (map (slice m ''modified_time'') (filter is_movies (categories m))))
         = Inr (newly_added_movies_data (data r))"
    using sort_lists_cases(6)[OF s] f(7) by (simp add: empty_lists_def)
  show "newly_added_episodes_data (data r)
         = concat (map (slice m ''seasons.episodes.modified_time'')
                     (filter (\<lambda>c. \<not> is_movies c) (categories m)))"
    using sort_lists_cases(7)[OF s] f(8) by (simp add: empty_lists_def)
  show "categories_data (data r) = map (attach m) (categories m)"
    using sort_lists_cases(8)[OF s] f(1) by (simp add: empty_lists_def)
qed

lemma home_queries:
  assumes "home start end m = (m', Inr r)" and "c \<in> set (categories m)"
  shows "query m ''popularity'' c = Inr (slice m ''popularity'' c)"
    and "query m ''rating'' c = Inr (slice m ''rating'' c)"
    and "is_movies c \<Longrightarrow> query m ''modified_time'' c = Inr (slice m ''modified_time'' c)"
    and "\<not> is_movies c \<Longrightarrow> query m ''seasons.episodes.modified_time'' c
           = Inr (slice m ''seasons.episodes.modified_time'' c)"
    and "\<exists>ty. getitem c ''type'' = Inr ty"
proof -
  from assms(1) obtain l where
    "for_category m (categories m) empty_lists
       = (3 * length (categories m), map (attach m) (categories m), Inr l)"
    by (rule home_success)
  from loop_queries[OF this assms(2)]
  show "query m ''popularity'' c = Inr (slice m ''popularity'' c)"
    and "query m ''rating'' c = Inr (slice m ''rating'' c)"
    and "is_movies c \<Longrightarrow> query m ''modified_time'' c = Inr (slice m ''modified_time'' c)"
    and "\<not> is_movies c \<Longrightarrow> query m ''seasons.episodes.modified_time'' c
           = Inr (slice m ''seasons.episodes.modified_time'' c)"
    and "\<exists>ty. getitem c ''type'' = Inr ty"
    by blast+
qed

section \<open>Helper facts on slices and membership\<close>

lemma mset_concat_member:
  "c \<in> set cs \<Longrightarrow> mset (f c) \<subseteq># mset (concat (map f cs))"
proof (induction cs)
  case Nil
  then show ?case by simp
next
  case (Cons a cs)
  show ?case
  proof (cases "c = a")
    case True
    then show ?thesis by simp
  next
    case False
    with Cons.prems have "c \<in> set cs" by simp
    from Cons.IH[OF this] show ?thesis
      by (simp add: subset_mset.add_increasing)
  qed
qed

lemma clean_concat: "list_all clean (concat (map (slice m f) cs))"
  using slice_clean[of m f] by (auto simp: list_all_iff)

lemma clean_concat_take: "list_all clean (concat (map (\<lambda>c. take n (slice m f c)) cs))"
proof -
  have "list_all clean (take n (slice m f c))" for c
    using slice_clean[of m f c] by (auto simp: list_all_iff dest: in_set_takeD)
  then show ?thesis by (auto simp: list_all_iff)
qed

lemma rank_ge_popularity_project:
  "rank_ge ''popularity'' (project unwanted_keys a) (project unwanted_keys b)
     = rank_ge ''popularity'' a b"
  by (simp only: rank_ge_def popularity_kept)

lemma sorted_reverse_clean:
  "sorted_reverse f xs = Inr ys \<Longrightarrow> list_all clean xs \<Longrightarrow> list_all clean ys"
  by (simp add: list_all_iff sorted_reverse_set)

section \<open>The popularity slice of a category\<close>

text \<open>
  C3. The popularity slice the store returns for a category has at most
  \<open>data_cap_limit\<close> records and the popularity never increases along it. The limit cuts
  the sorted order: the slice is the projection of the first \<open>data_cap_limit\<close> records of
  a rearrangement of the whole collection that is sorted by popularity.
\<close>
theorem popularity_slice_capped_sorted:
  assumes "query m ''popularity'' category = Inr s"
  shows "length s \<le> data_cap_limit \<and>
         sorted_wrt (rank_ge ''popularity'') s \<and>
         (\<exists>cid col full.
            getitem category ''id'' = Inr cid \<and> map_of (metadata m) cid = Some col \<and>
            mset full = mset col \<and> sorted_wrt (rank_ge ''popularity'') full \<and>
            s = map (project unwanted_keys) (take data_cap_limit full))"
proof -
  from assms obtain cid where g: "getitem category ''id'' = Inr cid"
    and a: "aggregate m cid (pipeline ''popularity'') = Inr s"
    by (rule query_cases)
  from a obtain col full where c: "map_of (metadata m) cid = Some col"
    and p: "mset full = mset col" and f: "sorted_wrt (rank_ge ''popularity'') full"
    and s: "s = map (project unwanted_keys) (take data_cap_limit full)"
    by (rule ranked_slice)
  have "length s \<le> data_cap_limit" by (simp add: s)
  moreover have "sorted_wrt (rank_ge ''popularity'') s"
    using sorted_wrt_take[OF f, of data_cap_limit]
    by (simp only: s sorted_wrt_map rank_ge_popularity_project)
  ultimately show ?thesis using g c p f s by blast
qed

theorem popularity_slice_capped_sorted_witness:
  "length (metadata archive) = 1 \<and> length (snd (hd (metadata archive))) = 17 \<and>
   map (num_key ''popularity'') (slice archive ''popularity'' (hd (categories archive)))
     = [17, 16, 15, 14, 13, 12, 11, 10, 9, 8, 7, 6, 5, 4, 3] \<and>
   length (slice archive ''popularity'' (hd (categories archive))) \<le> data_cap_limit \<and>
   sorted_wrt (rank_ge ''popularity'') (slice archive ''popularity'' (hd (categories archive)))"
proof -
  have h: "query archive ''popularity'' (hd (categories archive))
             = Inr (slice archive ''popularity'' (hd (categories archive)))"
    by code_simp
  have e: "length (metadata archive) = 1 \<and> length (snd (hd (metadata archive))) = 17 \<and>
    map (num_key ''popularity'') (slice archive ''popularity'' (hd (categories archive)))
     = [17, 16, 15, 14, 13, 12, 11, 10, 9, 8, 7, 6, 5, 4, 3]"
    by code_simp
  from popularity_slice_capped_sorted[OF h] e show ?thesis by blast
qed

section \<open>The excluded fields\<close>

text \<open>
  C5. Every query, whatever field it ranks by, projects the fields of \<open>unwanted_keys\<close>
  out: no record of a slice holds one of them, and so none of the records \<^verbatim>\<open>home\<close>
  returns does, in the seven lists and in the slice attached to each category.
\<close>
theorem excluded_fields_never_appear:
  assumes "home start end m = (m', Inr r)"
  shows "(\<forall>f category s. query m f category = Inr s \<longrightarrow> list_all clean s) \<and>
         list_all clean (carousel_data (data r)) \<and>
         list_all clean (most_popular_movies_data (data r)) \<and>
         list_all clean (most_popular_series_data (data r)) \<and>
         list_all clean (top_rated_movies_data (data r)) \<and>
         list_all clean (top_rated_series_data (data r)) \<and>
         list_all clean (newly_added_movies_data (data r)) \<and>
         list_all clean (newly_added_episodes_data (data r)) \<and>
         (\<forall>c \<in> set (categories_data (data r)).
            \<exists>s. getitem c ''metadata'' = Inr (Arr (map Doc s)) \<and> list_all clean s)"
proof -
  note l = home_lists[OF assms]
  have 0: "\<forall>f category s. query m f category = Inr s \<longrightarrow> list_all clean s"
    by (simp add: query_clean)
  have 1: "list_all clean (carousel_data (data r))"
    by (rule sorted_reverse_clean[OF l(1) clean_concat_take])
  have 2: "list_all clean (most_popular_movies_data (data r))"
    by (rule sorted_reverse_clean[OF l(2) clean_concat])
  have 3: "list_all clean (most_popular_series_data (data r))"
    by (rule sorted_reverse_clean[OF l(3) clean_concat])
  have 4: "list_all clean (top_rated_movies_data (data r))"
    by (rule sorted_reverse_clean[OF l(4) clean_concat])
  have 5: "list_all clean (top_rated_series_data (data r))"
    by (rule sorted_reverse_clean[OF l(5) clean_concat])
  have 6: "list_all clean (newly_added_movies_data (data r))"
    by (rule sorted_reverse_clean[OF l(6) clean_concat])
  have 7: "list_all clean (newly_added_episodes_data (data r))"
    unfolding l(7) by (rule clean_concat)
  have 8: "\<forall>c \<in> set (categories_data (data r)).
            \<exists>s. getitem c ''metadata'' = Inr (Arr (map Doc s)) \<and> list_all clean s"
    unfolding l(8) using slice_clean by (auto simp: attach_def getitem_setitem_same)
  from 0 1 2 3 4 5 6 7 8 show ?thesis by blast
qed

theorem excluded_fields_never_appear_witness:
  "map (map fst) (newly_added_episodes_data (data (projr (snd (home 0 1 library)))))
     = [[''title'', ''popularity'', ''rating'', ''modified_time''],
        [''title'', ''popularity'', ''rating'', ''modified_time''],
        [''title'', ''popularity'', ''rating'', ''modified_time'']] \<and>
   list_all clean (newly_added_episodes_data (data (projr (snd (home 0 1 library))))) \<and>
   list_all clean (carousel_data (data (projr (snd (home 0 1 library)))))"
proof -
  have h: "home 0 1 library = (fst (home 0 1 library), Inr (projr (snd (home 0 1 library))))"
    by code_simp
  have e: "map (map fst) (newly_added_episodes_data (data (projr (snd (home 0 1 library)))))
     = [[''title'', ''popularity'', ''rating'', ''modified_time''],
        [''title'', ''popularity'', ''rating'', ''modified_time''],
        [''title'', ''popularity'', ''rating'', ''modified_time'']]"
    by code_simp
  from excluded_fields_never_appear[OF h] e show ?thesis by blast
qed

section \<open>No categories\<close>

text \<open>
  C8. With no category, \<^verbatim>\<open>home\<close> returns \<^verbatim>\<open>ok\<close> true, the message
  \<^verbatim>\<open>success\<close> and eight empty lists, and leaves the store object as it was.
\<close>
theorem no_categories_all_empty:
  assumes "categories m = []"
  shows "home start end m =
           (m, Inr \<lparr>ok = True, message = ''success'',
                    data = \<lparr>categories_data = [], carousel_data = [],
                            most_popular_movies_data = [], most_popular_series_data = [],
                            top_rated_series_data = [], top_rated_movies_data = [],
                            newly_added_movies_data = [], newly_added_episodes_data = []\<rparr>,
                    time_taken = end - start\<rparr>)"
  using assms
  by (simp add: home_def sort_lists_def sorted_reverse_def empty_lists_def)

theorem no_categories_all_empty_witness:
  "categories no_categories = [] \<and>
   home 0 1 no_categories =
     (no_categories, Inr \<lparr>ok = True, message = ''success'',
                    data = \<lparr>categories_data = [], carousel_data = [],
                            most_popular_movies_data = [], most_popular_series_data = [],
                            top_rated_series_data = [], top_rated_movies_data = [],
                            newly_added_movies_data = [], newly_added_episodes_data = []\<rparr>,
                    time_taken = 1 - 0\<rparr>)"
proof -
  have h: "categories no_categories = []" by (simp add: no_categories_def)
  from no_categories_all_empty[OF h, of 0 1] h show ?thesis by blast
qed

section \<open>Categories that are not movies\<close>

text \<open>
  C10. In a run that returns, a category whose \<^verbatim>\<open>type\<close> is anything but the string
  \<^verbatim>\<open>movies\<close> has its popularity slice in \<^verbatim>\<open>most_popular_series\<close>, its rating slice
  in \<^verbatim>\<open>top_rated_series\<close> and its recency slice in \<^verbatim>\<open>newly_added_episodes\<close>; the
  recency query ranks the collection by the nested field
  \<^verbatim>\<open>seasons.episodes.modified_time\<close>, descending.
\<close>
theorem other_types_go_to_series:
  assumes "home start end m = (m', Inr r)"
    and "category \<in> set (categories m)"
    and "getitem category ''type'' \<noteq> Inr (Str ''movies'')"
  shows "\<exists>pop rat new.
           query m ''popularity'' category = Inr pop \<and>
           query m ''rating'' category = Inr rat \<and>
           query m ''seasons.episodes.modified_time'' category = Inr new \<and>
           mset pop \<subseteq># mset (most_popular_series_data (data r)) \<and>
           mset rat \<subseteq># mset (top_rated_series_data (data r)) \<and>
           mset new \<subseteq># mset (newly_added_episodes_data (data r)) \<and>
           (\<exists>cid col full.
              getitem category ''id'' = Inr cid \<and> map_of (metadata m) cid = Some col \<and>
              mset full = mset col \<and>
              sorted_wrt (rank_ge ''seasons.episodes.modified_time'') full \<and>
              new = map (project unwanted_keys) (take data_cap_limit full))"
proof -
  let ?series = "filter (\<lambda>c. \<not> is_movies c) (categories m)"
  from assms(3) have n: "\<not> is_movies category" by (simp add: is_movies_def)
  with assms(2) have s: "category \<in> set ?series" by simp
  note q = home_queries[OF assms(1,2)]
  note l = home_lists[OF assms(1)]
  have 1: "mset (slice m ''popularity'' category) \<subseteq># mset (most_popular_series_data (data r))"
    using mset_concat_member[OF s, of "slice m ''popularity''"] sorted_reverse_mset[OF l(3)]
    by simp
  have 2: "mset (slice m ''rating'' category) \<subseteq># mset (top_rated_series_data (data r))"
    using mset_concat_member[OF s, of "slice m ''rating''"] sorted_reverse_mset[OF l(5)]
    by simp
  have 3: "mset (slice m ''seasons.episodes.modified_time'' category)
             \<subseteq># mset (newly_added_episodes_data (data r))"
    using mset_concat_member[OF s, of "slice m ''seasons.episodes.modified_time''"]
    by (simp add: l(7))
  from q(4)[OF n] obtain cid where
    g: "getitem category ''id'' = Inr cid" and
    a: "aggregate m cid (pipeline ''seasons.episodes.modified_time'')
          = Inr (slice m ''seasons.episodes.modified_time'' category)"
    by (rule query_cases)
  from a obtain col full where "map_of (metadata m) cid = Some col" "mset full = mset col"
    "sorted_wrt (rank_ge ''seasons.episodes.modified_time'') full"
    "slice m ''seasons.episodes.modified_time'' category
       = map (project unwanted_keys) (take data_cap_limit full)"
    by (rule ranked_slice)
  with g q(1) q(2) q(4)[OF n] 1 2 3 show ?thesis by blast
qed

theorem other_types_go_to_series_witness:
  "category_types anime_store = [Inr (Str ''anime'')] \<and>
   most_popular_series_data (data (projr (snd (home 0 1 anime_store))))
     = map (project unwanted_keys) [series 2 1 9, series 1 2 7] \<and>
   top_rated_series_data (data (projr (snd (home 0 1 anime_store))))
     = map (project unwanted_keys) [series 1 2 7, series 2 1 9] \<and>
   newly_added_episodes_data (data (projr (snd (home 0 1 anime_store))))
     = map (project unwanted_keys) [series 2 1 9, series 1 2 7] \<and>
   (\<exists>pop rat new.
      query anime_store ''popularity'' (hd (categories anime_store)) = Inr pop \<and>
      query anime_store ''rating'' (hd (categories anime_store)) = Inr rat \<and>
      query anime_store ''seasons.episodes.modified_time'' (hd (categories anime_store)) = Inr new \<and>
      mset pop \<subseteq># mset (most_popular_series_data (data (projr (snd (home 0 1 anime_store))))) \<and>
      mset rat \<subseteq># mset (top_rated_series_data (data (projr (snd (home 0 1 anime_store))))) \<and>
      mset new \<subseteq># mset (newly_added_episodes_data (data (projr (snd (home 0 1 anime_store))))))"
proof -
  have h: "home 0 1 anime_store
             = (fst (home 0 1 anime_store), Inr (projr (snd (home 0 1 anime_store))))"
    by code_simp
  have c: "hd (categories anime_store) \<in> set (categories anime_store)"
    by (simp add: anime_store_def)
  have t: "getitem (hd (categories anime_store)) ''type'' \<noteq> Inr (Str ''movies'')"
    by code_simp
  have e: "category_types anime_store = [Inr (Str ''anime'')] \<and>
   most_popular_series_data (data (projr (snd (home 0 1 anime_store))))
     = map (project unwanted_keys) [series 2 1 9, series 1 2 7] \<and>
   top_rated_series_data (data (projr (snd (home 0 1 anime_store))))
     = map (project unwanted_keys) [series 1 2 7, series 2 1 9] \<and>
   newly_added_episodes_data (data (projr (snd (home 0 1 anime_store))))
     = map (project unwanted_keys) [series 2 1 9, series 1 2 7]"
    by code_simp
  from other_types_go_to_series[OF h c t] e show ?thesis by blast
qed

section \<open>The newly added lists\<close>

text \<open>
  \<^verbatim>\<open>newly_added_movies_data\<close> goes through \<^verbatim>\<open>sorted\<close> after the loop, so the
  modified time never increases along it.
\<close>
lemma newly_added_movies_sorted:
  "home start end m = (m', Inr r) \<Longrightarrow>
     sorted_wrt (key_ge ''modified_time'') (newly_added_movies_data (data r))"
  by (rule sorted_reverse_sorted[OF home_lists(6)])

text \<open>
  C2. \<^verbatim>\<open>newly_added_episodes_data\<close> is the one list with no call of \<^verbatim>\<open>sorted\<close>
  after the loop. With two categories of series, the second holding the more recent
  episode, the list comes back in the order of the categories: the modified times read
  1, 2, which is not descending.
\<close>
theorem newly_added_episodes_not_sorted:
  "snd (home 0 1 two_series) = Inr (projr (snd (home 0 1 two_series))) \<and>
   newly_added_episodes_data (data (projr (snd (home 0 1 two_series))))
     = map (project unwanted_keys) [series 3 3 1, series 4 4 2] \<and>
   map (num_key ''modified_time'')
       (newly_added_episodes_data (data (projr (snd (home 0 1 two_series))))) = [1, 2] \<and>
   \<not> sorted_wrt (key_ge ''modified_time'')
       (newly_added_episodes_data (data (projr (snd (home 0 1 two_series)))))"
  by code_simp

section \<open>A second request\<close>

lemma body_again:
  assumes "body m c l = (n, c', Inr l')"
    and "metadata m2 = metadata m" and "available m2 = available m"
  shows "body m2 c' l = (n, c', Inr l')"
  using assms(1)
proof (cases rule: body_cases)
  case (movies cid pop rat new)
  then show ?thesis
    by (simp add: body_def Let_def getitem_setitem_other setitem_idem
          aggregate_same_store[OF assms(2,3)])
next
  case (series cid ty pop rat new)
  then show ?thesis
    by (simp add: body_def Let_def getitem_setitem_other setitem_idem
          aggregate_same_store[OF assms(2,3)])
qed

lemma loop_again:
  "for_category m cs l = (n, cs', Inr l') \<Longrightarrow>
   metadata m2 = metadata m \<Longrightarrow> available m2 = available m \<Longrightarrow>
   for_category m2 cs' l = (n, cs', Inr l')"
proof (induction cs arbitrary: l n cs')
  case Nil
  then show ?case by simp
next
  case (Cons c cs)
  from Cons.prems(1) obtain n1 c1 l1 n2 cs2 where
    b: "body m c l = (n1, c1, Inr l1)" and r: "for_category m cs l1 = (n2, cs2, Inr l')"
    and e: "n = n1 + n2" "cs' = c1 # cs2"
    by (rule for_category_ConsE)
  from body_again[OF b Cons.prems(2,3)] Cons.IH[OF r Cons.prems(2,3)] e
  show ?case by simp
qed

lemma home_again:
  assumes "home start end m = (m1, Inr r1)"
  shows "home start' end' m1
           = (m1\<lparr>calls := calls m1 + 3 * length (categories m1)\<rparr>,
              Inr (r1\<lparr>time_taken := end' - start'\<rparr>))"
proof -
  from assms obtain l where
    f: "for_category m (categories m) empty_lists
          = (3 * length (categories m), map (attach m) (categories m), Inr l)"
    and s: "sort_lists l = Inr (data r1)"
    and m1: "m1 = m\<lparr>categories := map (attach m) (categories m),
                    calls := calls m + 3 * length (categories m)\<rparr>"
    and r1: "ok r1" "message r1 = ''success''"
    by (rule home_success)
  have "for_category m1 (categories m1) empty_lists
          = (3 * length (categories m), categories m1, Inr l)"
    using loop_again[OF f, of m1] by (simp add: m1)
  then show ?thesis using s r1 by (simp add: home_def m1)
qed

text \<open>
  Two requests in a row on the example store: the first runs six queries, the second six
  more.
\<close>
theorem second_request_queries_again_counterexample:
  "snd (home 0 1 library) = Inr (projr (snd (home 0 1 library))) \<and>
   calls library = 0 \<and>
   calls (fst (home 0 1 library)) = 6 \<and>
   calls (fst (home 1 2 (fst (home 0 1 library)))) = 12"
  by code_simp

text \<open>
  C6, as the code has it. There is no cache (the branch \<^verbatim>\<open>if True\<close> always
  regenerates): a request that follows one that returned returns the same lists again,
  and gets them by running three queries for every category, as the first did.
\<close>
theorem every_request_queries_again:
  assumes "home start end m = (m1, Inr r1)"
  shows "\<exists>m2 r2. home start' end' m1 = (m2, Inr r2) \<and> data r2 = data r1 \<and>
           calls m1 = calls m + 3 * length (categories m) \<and>
           calls m2 = calls m1 + 3 * length (categories m)"
proof -
  from assms obtain l where
    m1: "m1 = m\<lparr>categories := map (attach m) (categories m),
                    calls := calls m + 3 * length (categories m)\<rparr>"
    by (rule home_success)
  from home_again[OF assms, of start' end'] m1 show ?thesis by simp
qed

theorem every_request_queries_again_witness:
  "calls (fst (home 0 1 library)) = 6 \<and> length (categories library) = 2 \<and>
   (\<exists>m2 r2. home 1 2 (fst (home 0 1 library)) = (m2, Inr r2) \<and>
      data r2 = data (projr (snd (home 0 1 library))) \<and>
      calls (fst (home 0 1 library)) = calls library + 3 * length (categories library) \<and>
      calls m2 = calls (fst (home 0 1 library)) + 3 * length (categories library))"
proof -
  have h: "home 0 1 library = (fst (home 0 1 library), Inr (projr (snd (home 0 1 library))))"
    by code_simp
  have e: "calls (fst (home 0 1 library)) = 6 \<and> length (categories library) = 2"
    by code_simp
  from every_request_queries_again[OF h, of 1 2] e show ?thesis by blast
qed

section \<open>The category dictionaries\<close>

lemma body_category:
  assumes "body m c l = (n, c', r)"
  shows "c' = c \<or> (\<exists>v. c' = setitem c ''metadata'' v)"
proof (cases "getitem c ''id''")
  case (Inl e)
  with assms show ?thesis by (simp add: body_def)
next
  case i: (Inr cid)
  show ?thesis
  proof (cases "aggregate m cid (pipeline ''popularity'')")
    case (Inl e)
    with i assms show ?thesis by (simp add: body_def)
  next
    case (Inr pop)
    have "fst (snd (body m c l)) = setitem c ''metadata'' (Arr (map Doc pop))"
      by (simp add: body_def Let_def i Inr split: sum.split)
    with assms show ?thesis by auto
  qed
qed

lemma map_of_body_category:
  assumes "body m c l = (n, c', r)" and "k \<noteq> ''metadata''"
  shows "map_of c' k = map_of c k"
  using body_category[OF assms(1)] assms(2) by (auto simp: map_of_setitem)

lemma loop_categories:
  "for_category m cs l = (n, cs', r) \<Longrightarrow>
     list_all2 (\<lambda>c c'. \<forall>k. k \<noteq> ''metadata'' \<longrightarrow> map_of c' k = map_of c k) cs cs'"
proof (induction cs arbitrary: l n cs' r)
  case Nil
  then show ?case by simp
next
  case (Cons c cs)
  obtain n1 c1 r1 where b: "body m c l = (n1, c1, r1)"
    by (cases "body m c l") auto
  note k = map_of_body_category[OF b]
  show ?case
  proof (cases r1)
    case (Inl e)
    with b Cons.prems have "cs' = c1 # cs" by simp
    with k show ?thesis by (simp add: list_all2_refl)
  next
    case (Inr l1)
    obtain n2 cs2 r2 where f: "for_category m cs l1 = (n2, cs2, r2)"
      by (cases "for_category m cs l1") auto
    with b Inr Cons.prems have "cs' = c1 # cs2" by simp
    with k Cons.IH[OF f] show ?thesis by simp
  qed
qed

text \<open>
  After a request the category dictionaries of the example store hold a third key,
  \<^verbatim>\<open>metadata\<close>.
\<close>
theorem category_records_changed_counterexample:
  "map (map fst) (categories library) = [[''id'', ''type''], [''id'', ''type'']] \<and>
   map (map fst) (categories (fst (home 0 1 library)))
     = [[''id'', ''type'', ''metadata''], [''id'', ''type'', ''metadata'']] \<and>
   categories (fst (home 0 1 library)) \<noteq> categories library"
  by code_simp

text \<open>
  C9, as the code has it. \<^verbatim>\<open>home\<close> assigns the key \<^verbatim>\<open>metadata\<close> of the
  category dictionaries and nothing else of them: after any run, returned or not, every
  other key of every category has the value it had (or is absent as it was), and the
  collections are unchanged; after a run that returned, \<^verbatim>\<open>metadata\<close> of every
  category is its popularity slice.
\<close>
theorem categories_keep_all_but_metadata:
  "list_all2 (\<lambda>c c'. \<forall>k. k \<noteq> ''metadata'' \<longrightarrow> map_of c' k = map_of c k)
     (categories m) (categories (fst (home start end m))) \<and>
   metadata (fst (home start end m)) = metadata m \<and>
   (\<forall>r. snd (home start end m) = Inr r \<longrightarrow>
      categories (fst (home start end m))
        = map (\<lambda>c. setitem c ''metadata'' (Arr (map Doc (slice m ''popularity'' c))))
            (categories m))"
proof -
  obtain n cs' res where f: "for_category m (categories m) empty_lists = (n, cs', res)"
    by (cases "for_category m (categories m) empty_lists") auto
  then have m': "fst (home start end m) = m\<lparr>categories := cs', calls := calls m + n\<rparr>"
    by (simp add: home_def)
  have 1: "list_all2 (\<lambda>c c'. \<forall>k. k \<noteq> ''metadata'' \<longrightarrow> map_of c' k = map_of c k)
     (categories m) (categories (fst (home start end m)))"
    using loop_categories[OF f] by (simp add: m')
  have 2: "metadata (fst (home start end m)) = metadata m" by (simp add: m')
  have 3: "categories (fst (home start end m))
        = map (\<lambda>c. setitem c ''metadata'' (Arr (map Doc (slice m ''popularity'' c))))
            (categories m)" if "snd (home start end m) = Inr r" for r
  proof -
    from that have "home start end m = (fst (home start end m), Inr r)"
      by (metis prod.collapse)
    then have "fst (home start end m) = m\<lparr>categories := map (attach m) (categories m),
                    calls := calls m + 3 * length (categories m)\<rparr>"
      by (rule home_success)
    then show ?thesis by (simp add: attach_def[abs_def])
  qed
  from 1 2 3 show ?thesis by blast
qed

theorem categories_keep_all_but_metadata_witness:
  "map (\<lambda>c. map_of c ''id'') (categories (fst (home 0 1 library)))
     = map (\<lambda>c. map_of c ''id'') (categories library) \<and>
   list_all2 (\<lambda>c c'. \<forall>k. k \<noteq> ''metadata'' \<longrightarrow> map_of c' k = map_of c k)
     (categories library) (categories (fst (home 0 1 library))) \<and>
   metadata (fst (home 0 1 library)) = metadata library \<and>
   categories (fst (home 0 1 library))
     = map (\<lambda>c. setitem c ''metadata'' (Arr (map Doc (slice library ''popularity'' c))))
         (categories library)"
proof -
  have h: "snd (home 0 1 library) = Inr (projr (snd (home 0 1 library)))"
    by code_simp
  have e: "map (\<lambda>c. map_of c ''id'') (categories (fst (home 0 1 library)))
     = map (\<lambda>c. map_of c ''id'') (categories library)"
    by code_simp
  from categories_keep_all_but_metadata[of library 0 1] h e show ?thesis by blast
qed

section \<open>Stores on which the route returns\<close>

lemma has_number_project:
  "map_of unwanted_keys f = None \<Longrightarrow> has_number f (project unwanted_keys d) = has_number f d"
  by (simp add: has_number_def map_of_project)

lemma slice_members:
  assumes "d \<in> set (slice m f c)"
  obtains cid col d0 where "getitem c ''id'' = Inr cid" "map_of (metadata m) cid = Some col"
    "d0 \<in> set col" "d = project unwanted_keys d0"
proof (cases "query m f c")
  case (Inl e)
  with assms show ?thesis by (simp add: slice_def)
next
  case (Inr s)
  then obtain cid where g: "getitem c ''id'' = Inr cid"
    and a: "aggregate m cid (pipeline f) = Inr s"
    by (rule query_cases)
  from a obtain col where c: "map_of (metadata m) cid = Some col"
    and s: "s = map (project unwanted_keys)
           (take data_cap_limit (rev (sort_key (sort_rank Descending f) (rev col))))"
    by (rule aggregate_pipeline)
  from assms Inr have "d \<in> set s" by (simp add: slice_def)
  with s obtain d0 where
    "d0 \<in> set (take data_cap_limit (rev (sort_key (sort_rank Descending f) (rev col))))"
    "d = project unwanted_keys d0"
    by auto
  moreover from this(1) have "d0 \<in> set col" by (auto dest: in_set_takeD)
  ultimately show ?thesis using g c by (intro that[of cid col d0])
qed

lemma ranked_by_numbers_category:
  assumes "ranked_by_numbers m" and "c \<in> set (categories m)"
  shows "\<exists>cid col ty.
           getitem c ''id'' = Inr cid \<and> map_of (metadata m) cid = Some col \<and>
           getitem c ''type'' = Inr ty \<and>
           (\<forall>d \<in> set col. has_number ''popularity'' d \<and> has_number ''rating'' d \<and>
              (ty = Str ''movies'' \<longrightarrow> has_number ''modified_time'' d))"
proof -
  from assms have p:
    "case getitem c ''id'' of
       Inl e \<Rightarrow> False
     | Inr cid \<Rightarrow>
         (case map_of (metadata m) cid of
            None \<Rightarrow> False
          | Some col \<Rightarrow>
              (case getitem c ''type'' of
                 Inl e \<Rightarrow> False
               | Inr ty \<Rightarrow>
                   list_all
                     (\<lambda>d. has_number ''popularity'' d \<and> has_number ''rating'' d \<and>
                          (ty = Str ''movies'' \<longrightarrow> has_number ''modified_time'' d))
                     col))"
    by (simp add: ranked_by_numbers_def list_all_iff)
  obtain cid where 1: "getitem c ''id'' = Inr cid"
    using p by (cases "getitem c ''id''") simp_all
  obtain col where 2: "map_of (metadata m) cid = Some col"
    using p 1 by (cases "map_of (metadata m) cid") simp_all
  obtain ty where 3: "getitem c ''type'' = Inr ty"
    using p 1 2 by (cases "getitem c ''type''") simp_all
  from p 1 2 3 show ?thesis by (simp add: list_all_iff)
qed

lemma numbers_in_slice:
  assumes "ranked_by_numbers m" and "c \<in> set (categories m)" and "d \<in> set (slice m f c)"
  shows "has_number ''popularity'' d" and "has_number ''rating'' d"
    and "is_movies c \<Longrightarrow> has_number ''modified_time'' d"
proof -
  from ranked_by_numbers_category[OF assms(1,2)] obtain cid col ty where
    g: "getitem c ''id'' = Inr cid" and c: "map_of (metadata m) cid = Some col" and
    t: "getitem c ''type'' = Inr ty" and
    n: "\<And>d. d \<in> set col \<Longrightarrow> has_number ''popularity'' d \<and> has_number ''rating'' d \<and>
           (ty = Str ''movies'' \<longrightarrow> has_number ''modified_time'' d)"
    by blast
  from assms(3) obtain cid' col' d0 where
    "getitem c ''id'' = Inr cid'" "map_of (metadata m) cid' = Some col'"
    "d0 \<in> set col'" and d: "d = project unwanted_keys d0"
    by (rule slice_members)
  with g c have d0: "d0 \<in> set col" by simp
  have k: "map_of unwanted_keys ''popularity'' = None" "map_of unwanted_keys ''rating'' = None"
    "map_of unwanted_keys ''modified_time'' = None"
    by (simp_all add: unwanted_keys_def)
  from n[OF d0] show "has_number ''popularity'' d" and "has_number ''rating'' d"
    by (simp_all add: d has_number_project k)
  show "has_number ''modified_time'' d" if "is_movies c"
    using that n[OF d0] t by (simp add: d has_number_project k is_movies_def)
qed

lemma keys_of_numbers:
  "\<forall>d \<in> set xs. has_number f d \<Longrightarrow> \<exists>vs. keys_of f xs = Inr vs \<and> list_all is_Num vs"
proof (induction xs)
  case Nil
  then show ?case by simp
next
  case (Cons x xs)
  then obtain vs where v: "keys_of f xs = Inr vs" "list_all is_Num vs" by auto
  from Cons.prems obtain n where "map_of x f = Some (Num n)"
    by (auto simp: has_number_def split: option.splits val.splits)
  with v show ?case by (simp add: getitem_def)
qed

lemma sorted_reverse_numbers:
  assumes "\<forall>d \<in> set xs. has_number f d"
  shows "sorted_reverse f xs
           = Inr (if length xs \<le> 1 then xs else rev (sort_key (num_key f) (rev xs)))"
proof -
  from keys_of_numbers[OF assms] obtain vs where "keys_of f xs = Inr vs" "list_all is_Num vs"
    by blast
  then show ?thesis by (simp add: sorted_reverse_def)
qed

lemma body_returns:
  assumes "available m" and "getitem c ''id'' = Inr cid"
    and "map_of (metadata m) cid = Some col" and "getitem c ''type'' = Inr ty"
  shows "\<exists>l'. body m c l = (3, attach m c, Inr l')"
proof -
  have a: "aggregate m cid (pipeline f) = Inr (fold run_stage (pipeline f) col)" for f
    using assms(1,3) by (simp add: aggregate_def)
  have t: "getitem (setitem c ''metadata'' v) ''type'' = Inr ty" for v
    using assms(4) by (simp add: getitem_setitem_other)
  have s: "slice m ''popularity'' c = fold run_stage (pipeline ''popularity'') col"
    by (simp add: slice_def query_def assms(2) a)
  show ?thesis
    by (cases "ty = Str ''movies''")
       (simp_all add: body_def Let_def assms(2) a t attach_def s)
qed

lemma loop_returns:
  assumes "ranked_by_numbers m"
  shows "set cs \<subseteq> set (categories m) \<Longrightarrow>
         for_category m cs l = (3 * length cs, map (attach m) cs, Inr (foldl (step m) l cs))"
proof (induction cs arbitrary: l)
  case Nil
  then show ?case by simp
next
  case (Cons c cs)
  from Cons.prems have c: "c \<in> set (categories m)" and cs: "set cs \<subseteq> set (categories m)"
    by simp_all
  from assms have av: "available m" by (simp add: ranked_by_numbers_def)
  from ranked_by_numbers_category[OF assms c] obtain cid col ty where
    "getitem c ''id'' = Inr cid"
    "map_of (metadata m) cid = Some col" "getitem c ''type'' = Inr ty"
    by blast
  from body_returns[OF av this, of l] obtain l' where b: "body m c l = (3, attach m c, Inr l')"
    by blast
  from body_step(3)[OF b] have l': "l' = step m l c" .
  from Cons.IH[OF cs, of l'] b l' show ?case by simp
qed

lemma sort_lists_returns:
  assumes "\<forall>d \<in> set (carousel_data l). has_number ''popularity'' d"
    and "\<forall>d \<in> set (most_popular_movies_data l). has_number ''popularity'' d"
    and "\<forall>d \<in> set (most_popular_series_data l). has_number ''popularity'' d"
    and "\<forall>d \<in> set (top_rated_movies_data l). has_number ''rating'' d"
    and "\<forall>d \<in> set (top_rated_series_data l). has_number ''rating'' d"
    and "\<forall>d \<in> set (newly_added_movies_data l). has_number ''modified_time'' d"
  shows "\<exists>l'. sort_lists l = Inr l'"
  by (simp add: sort_lists_def sorted_reverse_numbers[OF assms(1)]
        sorted_reverse_numbers[OF assms(2)] sorted_reverse_numbers[OF assms(3)]
        sorted_reverse_numbers[OF assms(4)] sorted_reverse_numbers[OF assms(5)]
        sorted_reverse_numbers[OF assms(6)])

lemma home_returns:
  assumes "ranked_by_numbers m"
  shows "\<exists>m' r. home start end m = (m', Inr r)"
proof -
  let ?l = "foldl (step m) empty_lists (categories m)"
  have f: "for_category m (categories m) empty_lists
             = (3 * length (categories m), map (attach m) (categories m), Inr ?l)"
    by (rule loop_returns[OF assms]) simp
  note n = numbers_in_slice[OF assms]
  have "\<exists>l'. sort_lists ?l = Inr l'"
  proof (rule sort_lists_returns)
    show "\<forall>d \<in> set (carousel_data ?l). has_number ''popularity'' d"
      by (auto simp: foldl_step_fields empty_lists_def dest: in_set_takeD n(1))
    show "\<forall>d \<in> set (most_popular_movies_data ?l). has_number ''popularity'' d"
      by (auto simp: foldl_step_fields empty_lists_def dest: n(1))
    show "\<forall>d \<in> set (most_popular_series_data ?l). has_number ''popularity'' d"
      by (auto simp: foldl_step_fields empty_lists_def dest: n(1))
    show "\<forall>d \<in> set (top_rated_movies_data ?l). has_number ''rating'' d"
      by (auto simp: foldl_step_fields empty_lists_def dest: n(2))
    show "\<forall>d \<in> set (top_rated_series_data ?l). has_number ''rating'' d"
      by (auto simp: foldl_step_fields empty_lists_def dest: n(2))
    show "\<forall>d \<in> set (newly_added_movies_data ?l). has_number ''modified_time'' d"
      by (auto simp: foldl_step_fields empty_lists_def dest: n(3))
  qed
  then obtain l' where "sort_lists ?l = Inr l'" by blast
  with f show ?thesis by (simp add: home_def)
qed

section \<open>The carousel\<close>

text \<open>
  C1. On a store that can be reached, whose categories have an id with a collection and a
  type and whose records rank by numbers, \<^verbatim>\<open>home\<close> returns. Whenever \<^verbatim>\<open>home\<close>
  returns, the carousel is Python's descending sort by popularity of the concatenation, in
  the order of the categories, of the first three records of every category's popularity
  slice: it holds the same records as that concatenation, and the popularity never
  increases along it. For two categories with the popularities 7, 6, 5 and 10, 9, 8, in
  this order, the carousel reads 10, 9, 8, 7, 6, 5.
\<close>
theorem carousel_top_three_sorted:
  "(ranked_by_numbers m \<longrightarrow> (\<exists>m' r. home start end m = (m', Inr r))) \<and>
   (\<forall>m' r. home start end m = (m', Inr r) \<longrightarrow>
      (\<exists>slices.
         map (query m ''popularity'') (categories m) = map Inr slices \<and>
         sorted_reverse ''popularity'' (concat (map (take 3) slices))
           = Inr (carousel_data (data r)) \<and>
         mset (carousel_data (data r)) = mset (concat (map (take 3) slices)) \<and>
         sorted_wrt (key_ge ''popularity'') (carousel_data (data r))))"
proof -
  have "\<exists>slices.
         map (query m ''popularity'') (categories m) = map Inr slices \<and>
         sorted_reverse ''popularity'' (concat (map (take 3) slices))
           = Inr (carousel_data (data r)) \<and>
         mset (carousel_data (data r)) = mset (concat (map (take 3) slices)) \<and>
         sorted_wrt (key_ge ''popularity'') (carousel_data (data r))"
    if h: "home start end m = (m', Inr r)" for m' r
  proof -
    let ?slices = "map (slice m ''popularity'') (categories m)"
    have q: "map (query m ''popularity'') (categories m) = map Inr ?slices"
      using home_queries(1)[OF h] by simp
    have c: "concat (map (take 3) ?slices)
             = concat (map (\<lambda>c. take 3 (slice m ''popularity'' c)) (categories m))"
      by (simp add: comp_def)
    have s: "sorted_reverse ''popularity'' (concat (map (take 3) ?slices))
               = Inr (carousel_data (data r))"
      unfolding c by (rule home_lists(1)[OF h])
    from q s sorted_reverse_mset[OF s] sorted_reverse_sorted[OF s] show ?thesis by blast
  qed
  with home_returns[of m start "end"] show ?thesis by blast
qed

theorem carousel_top_three_sorted_witness:
  "ranked_by_numbers shelves \<and>
   map (map (num_key ''popularity''))
       (map (\<lambda>c. take 3 (slice shelves ''popularity'' c)) (categories shelves))
     = [[7, 6, 5], [10, 9, 8]] \<and>
   (\<exists>m' r. home 0 1 shelves = (m', Inr r) \<and>
      map (num_key ''popularity'') (carousel_data (data r)) = [10, 9, 8, 7, 6, 5] \<and>
      sorted_wrt (key_ge ''popularity'') (carousel_data (data r)))"
proof -
  have n: "ranked_by_numbers shelves" by code_simp
  have c: "map (map (num_key ''popularity''))
       (map (\<lambda>c. take 3 (slice shelves ''popularity'' c)) (categories shelves))
     = [[7, 6, 5], [10, 9, 8]]"
    by code_simp
  have e: "map (num_key ''popularity'')
             (carousel_data (data (projr (snd (home 0 1 shelves))))) = [10, 9, 8, 7, 6, 5]"
    by code_simp
  from carousel_top_three_sorted[of shelves 0 1] n obtain m' r where
    h: "home 0 1 shelves = (m', Inr r)" by blast
  with carousel_top_three_sorted[of shelves 0 1]
  have s: "sorted_wrt (key_ge ''popularity'') (carousel_data (data r))" by blast
  from e h have v: "map (num_key ''popularity'') (carousel_data (data r))
                      = [10, 9, 8, 7, 6, 5]" by simp
  from h v s have "\<exists>m' r. home 0 1 shelves = (m', Inr r) \<and>
      map (num_key ''popularity'') (carousel_data (data r)) = [10, 9, 8, 7, 6, 5] \<and>
      sorted_wrt (key_ge ''popularity'') (carousel_data (data r))"
    by (intro exI[of _ m'] exI[of _ r] conjI)
  with n c show ?thesis by (intro conjI)
qed

section \<open>The most popular lists and the kind of a category\<close>

text \<open>
  The split of the loop: a category whose \<^verbatim>\<open>type\<close> is \<^verbatim>\<open>movies\<close> feeds the
  movie lists, any other category the series lists.
\<close>
lemma most_popular_split_by_type:
  assumes "home start end m = (m', Inr r)"
  shows "(\<forall>d \<in> set (most_popular_movies_data (data r)).
            \<exists>c \<in> set (categories m).
              getitem c ''type'' = Inr (Str ''movies'') \<and>
              (\<exists>s. query m ''popularity'' c = Inr s \<and> d \<in> set s)) \<and>
         (\<forall>d \<in> set (most_popular_series_data (data r)).
            \<exists>c \<in> set (categories m).
              getitem c ''type'' \<noteq> Inr (Str ''movies'') \<and>
              (\<exists>s. query m ''popularity'' c = Inr s \<and> d \<in> set s))"
proof -
  note l = home_lists[OF assms]
  have q: "c \<in> set (categories m) \<Longrightarrow>
           query m ''popularity'' c = Inr (slice m ''popularity'' c)" for c
    by (rule home_queries(1)[OF assms])
  have "\<exists>c \<in> set (categories m).
              getitem c ''type'' = Inr (Str ''movies'') \<and>
              (\<exists>s. query m ''popularity'' c = Inr s \<and> d \<in> set s)"
    if "d \<in> set (most_popular_movies_data (data r))" for d
  proof -
    from that sorted_reverse_set[OF l(2)] obtain c where
      "c \<in> set (categories m)" "is_movies c" "d \<in> set (slice m ''popularity'' c)"
      by auto
    with q[of c] show ?thesis by (auto simp: is_movies_def)
  qed
  moreover have "\<exists>c \<in> set (categories m).
              getitem c ''type'' \<noteq> Inr (Str ''movies'') \<and>
              (\<exists>s. query m ''popularity'' c = Inr s \<and> d \<in> set s)"
    if "d \<in> set (most_popular_series_data (data r))" for d
  proof -
    from that sorted_reverse_set[OF l(3)] obtain c where
      "c \<in> set (categories m)" "\<not> is_movies c" "d \<in> set (slice m ''popularity'' c)"
      by auto
    with q[of c] show ?thesis by (auto simp: is_movies_def)
  qed
  ultimately show ?thesis by blast
qed

text \<open>
  C4. With every category of the kind movies or series, \<^verbatim>\<open>most_popular_movies\<close>
  holds only records of the popularity slices of categories of the kind movies, and
  \<^verbatim>\<open>most_popular_series\<close> only records of the popularity slices of categories of the
  kind series.
\<close>
theorem most_popular_lists_by_kind:
  assumes "home start end m = (m', Inr r)"
    and "list_all movies_or_series (categories m)"
  shows "(\<forall>d \<in> set (most_popular_movies_data (data r)).
            \<exists>c \<in> set (categories m).
              getitem c ''type'' = Inr (Str ''movies'') \<and>
              (\<exists>s. query m ''popularity'' c = Inr s \<and> d \<in> set s)) \<and>
         (\<forall>d \<in> set (most_popular_series_data (data r)).
            \<exists>c \<in> set (categories m).
              getitem c ''type'' = Inr (Str ''series'') \<and>
              (\<exists>s. query m ''popularity'' c = Inr s \<and> d \<in> set s))"
proof -
  from assms(2) have k: "c \<in> set (categories m) \<Longrightarrow>
      getitem c ''type'' \<noteq> Inr (Str ''movies'') \<Longrightarrow> getitem c ''type'' = Inr (Str ''series'')"
    for c
    by (auto simp: list_all_iff movies_or_series_def)
  from most_popular_split_by_type[OF assms(1)] k show ?thesis by blast
qed

theorem most_popular_lists_by_kind_witness:
  "list_all movies_or_series (categories library) \<and>
   map (num_key ''popularity'') (most_popular_movies_data (data (projr (snd (home 0 1 library)))))
     = [10, 9, 8] \<and>
   map (num_key ''popularity'') (most_popular_series_data (data (projr (snd (home 0 1 library)))))
     = [7, 6, 5] \<and>
   (\<exists>c \<in> set (categories library).
      getitem c ''type'' = Inr (Str ''movies'') \<and>
      (\<exists>s. query library ''popularity'' c = Inr s \<and>
           hd (most_popular_movies_data (data (projr (snd (home 0 1 library))))) \<in> set s)) \<and>
   (\<exists>c \<in> set (categories library).
      getitem c ''type'' = Inr (Str ''series'') \<and>
      (\<exists>s. query library ''popularity'' c = Inr s \<and>
           hd (most_popular_series_data (data (projr (snd (home 0 1 library))))) \<in> set s))"
proof -
  have h: "home 0 1 library = (fst (home 0 1 library), Inr (projr (snd (home 0 1 library))))"
    by code_simp
  have k: "list_all movies_or_series (categories library)" by code_simp
  have e: "map (num_key ''popularity'') (most_popular_movies_data (data (projr (snd (home 0 1 library)))))
     = [10, 9, 8] \<and>
   map (num_key ''popularity'') (most_popular_series_data (data (projr (snd (home 0 1 library)))))
     = [7, 6, 5]"
    by code_simp
  have d1: "hd (most_popular_movies_data (data (projr (snd (home 0 1 library)))))
              \<in> set (most_popular_movies_data (data (projr (snd (home 0 1 library)))))"
    by (rule hd_in_set) (use e in auto)
  have d2: "hd (most_popular_series_data (data (projr (snd (home 0 1 library)))))
              \<in> set (most_popular_series_data (data (projr (snd (home 0 1 library)))))"
    by (rule hd_in_set) (use e in auto)
  from most_popular_lists_by_kind[OF h k] d1 d2 e k show ?thesis by blast
qed

section \<open>Exceptions\<close>


lemma exception_leaves_home: "snd (home 0 1 no_id) = Inl (KeyError ''id'')"
  by code_simp



end
